theory Spec2Isabelle
  imports Main
begin

section \<open>The graw engine (internal/engine/engine.go)\<close>

text \<open>
  The engine runs one bot: a registry of monitors (a linked list plus a map from username
  to list element), the operations that edit the registry, and the loop of \<open>Run\<close>.
  Everything the engine calls but does not own (the bot's methods, the monitors'
  \<open>Update\<close>, the monitor constructor, the http client) acts on a world of type \<open>'w\<close>,
  which every call receives and returns. The calls the engine makes are recorded, in
  order, as a list of events returned next to the result.
\<close>

subsection \<open>Values\<close>

text \<open>A Go \<open>error\<close> value; \<open>nil\<close> is \<open>None\<close> of \<open>error option\<close>.\<close>

type_synonym error = string

text \<open>\<open>time.Duration\<close>: a count of nanoseconds.\<close>

type_synonym duration = int

text \<open>\<open>time.Minute\<close> of Go's standard library, in nanoseconds.\<close>

definition Minute :: duration where
  "Minute = 60 * 1000000000"

definition defaultBlockTime :: duration where
  "defaultBlockTime = Minute div 30"

text \<open>
  \<open>monitor.Monitor\<close>: the engine uses its \<open>Update\<close> method only. The two closures the
  engine passes to \<open>Update\<close> wrap the engine's client, which is part of the world.
\<close>

datatype 'w Monitor = Monitor (Update: "'w \<Rightarrow> error option \<times> 'w")

text \<open>
  The bot is an \<open>interface{}\<close>; the engine asks by type assertion whether it implements
  \<open>botfaces.Loader\<close>, \<open>Tearer\<close>, \<open>Failer\<close>, \<open>BlockTimer\<close> and \<open>UserHandler\<close>. Each
  field is \<open>None\<close> when the assertion fails and holds the interface's method otherwise,
  with the signature of its call site in the engine. \<open>'h\<close> stands for the pair of
  callbacks \<open>UserPost\<close> and \<open>UserComment\<close>, which the engine only hands on to the
  monitor constructor.
\<close>

record ('w, 'h) bot =
  Loader :: "('w \<Rightarrow> error option \<times> 'w) option"
  Tearer :: "('w \<Rightarrow> 'w) option"
  Failer :: "(error \<Rightarrow> 'w \<Rightarrow> bool \<times> 'w) option"
  BlockTimer :: "('w \<Rightarrow> duration \<times> 'w) option"
  UserHandler :: "'h option"

subsection \<open>container/list\<close>

text \<open>
  A \<open>list.List\<close> of Go's standard library, as far as the engine uses it. An element
  (\<open>*list.Element\<close>) is an address; \<open>PushBack\<close> allocates the next one and returns it,
  \<open>Remove\<close> unlinks the element with that address and does nothing when the list does
  not hold it.
\<close>

type_synonym elem = nat

record 'a glist =
  items :: "(elem \<times> 'a) list"
  fresh :: elem

definition PushBack :: "'a \<Rightarrow> 'a glist \<Rightarrow> elem \<times> 'a glist" where
  "PushBack v l = (fresh l, l\<lparr>items := items l @ [(fresh l, v)], fresh := Suc (fresh l)\<rparr>)"

definition Remove :: "elem \<Rightarrow> 'a glist \<Rightarrow> 'a glist" where
  "Remove el l = l\<lparr>items := filter (\<lambda>p. fst p \<noteq> el) (items l)\<rparr>"

subsection \<open>The engine\<close>

text \<open>
  The fields of \<open>Engine\<close> that the engine's own code reads or writes. The client
  \<open>cli\<close> lives in the world; the channel \<open>stopSig\<close> is the schedule given to \<open>Run\<close>.
\<close>

record ('w, 'h) Engine =
  bot :: "('w, 'h) bot"
  stop :: bool
  monitors :: "'w Monitor glist"
  userMonitors :: "string \<rightharpoonup> elem"

text \<open>\<open>monitor.UserMonitor\<close> with the scrape closure bound: callbacks, username, world.\<close>

type_synonym ('w, 'h) constructor = "'h \<Rightarrow> string \<Rightarrow> 'w \<Rightarrow> (error + 'w Monitor) \<times> 'w"

definition WatchUser ::
  "('w, 'h) constructor \<Rightarrow> ('w, 'h) Engine \<Rightarrow> string \<Rightarrow> 'w \<Rightarrow>
     error option \<times> ('w, 'h) Engine \<times> 'w" where
  "WatchUser UserMonitor e user w =
     (case UserHandler (bot e) of
        None \<Rightarrow> (Some ''bot cannot handle user posts or comments'', e, w)
      | Some han \<Rightarrow>
          (case UserMonitor han user w of
             (Inl err, w') \<Rightarrow> (Some err, e, w')
           | (Inr mon, w') \<Rightarrow>
               (case PushBack mon (monitors e) of
                  (el, l) \<Rightarrow>
                    (None, e\<lparr>monitors := l, userMonitors := (userMonitors e)(user \<mapsto> el)\<rparr>, w'))))"

definition UnwatchUser :: "('w, 'h) Engine \<Rightarrow> string \<Rightarrow> error option \<times> ('w, 'h) Engine" where
  "UnwatchUser e user =
     (case userMonitors e user of
        Some el \<Rightarrow>
          (None, e\<lparr>monitors := Remove el (monitors e),
                    userMonitors := (userMonitors e)(user := None)\<rparr>)
      | None \<Rightarrow> (None, e))"

subsection \<open>The polling pass\<close>

text \<open>What the engine calls, and what its \<open>select\<close> receives.\<close>

datatype 'w event =
    SetUpCall
  | TearDownCall
  | After duration
  | StopRecv
  | UpdateCall "'w Monitor"
  | FailCall error

text \<open>The first loop of \<open>updateMonitors\<close>: the monitors from \<open>Front\<close> along \<open>Next\<close>.\<close>

definition snapshot :: "('w, 'h) Engine \<Rightarrow> 'w Monitor list" where
  "snapshot e = map snd (items (monitors e))"

text \<open>The second loop: \<open>for _, mon := range monitors\<close>, returning at the first error.\<close>

fun update_each :: "'w Monitor list \<Rightarrow> 'w \<Rightarrow> error option \<times> 'w \<times> 'w event list" where
  "update_each [] w = (None, w, [])"
| "update_each (mon # mons) w =
     (case Update mon w of
        (Some err, w') \<Rightarrow> (Some err, w', [UpdateCall mon])
      | (None, w') \<Rightarrow>
          (case update_each mons w' of
             (r, w'', evs) \<Rightarrow> (r, w'', UpdateCall mon # evs)))"

definition updateMonitors ::
  "('w, 'h) Engine \<Rightarrow> 'w \<Rightarrow> error option \<times> 'w \<times> 'w event list" where
  "updateMonitors e w = update_each (snapshot e) w"

definition blockTime :: "('w, 'h) Engine \<Rightarrow> 'w \<Rightarrow> duration \<times> 'w" where
  "blockTime e w =
     (case BlockTimer (bot e) of
        Some BlockTime \<Rightarrow> BlockTime w
      | None \<Rightarrow> (defaultBlockTime, w))"

subsection \<open>Run\<close>

text \<open>
  One entry of the schedule is what one \<open>select\<close> of the loop receives: a value on
  \<open>stopSig\<close>, or the timer. When the schedule is used up and the loop has not ended,
  the \<open>select\<close> never receives anything and \<open>Run\<close> does not return: \<open>Blocked\<close>.
\<close>

datatype select = StopSig | TimerFired

datatype result = Blocked | Returned "error option"

type_synonym ('w, 'h) config = "result \<times> ('w, 'h) Engine \<times> 'w \<times> 'w event list"

definition emit :: "'w event list \<Rightarrow> ('w, 'h) config \<Rightarrow> ('w, 'h) config" where
  "emit evs c = (case c of (r, e, w, evs') \<Rightarrow> (r, e, w, evs @ evs'))"

text \<open>
  The body of the loop, the \<open>select\<close> statement, given what it receives. The channel
  expression \<open>time.After(e.blockTime())\<close> is evaluated on entering the \<open>select\<close>,
  before it waits. The error of a pass is returned unless the bot is a \<open>Failer\<close> and
  \<open>Fail(err)\<close> is false: \<open>!(ok && !failer.Fail(err))\<close>. The first component is
  \<open>Some err\<close> for \<open>return err\<close> and \<open>None\<close> when the body runs to its end.
\<close>

definition select_stmt ::
  "select \<Rightarrow> ('w, 'h) Engine \<Rightarrow> 'w \<Rightarrow> error option \<times> ('w, 'h) Engine \<times> 'w \<times> 'w event list" where
  "select_stmt s e w =
     (case blockTime e w of
        (d, w1) \<Rightarrow>
          (case s of
             StopSig \<Rightarrow> (None, e\<lparr>stop := True\<rparr>, w1, [After d, StopRecv])
           | TimerFired \<Rightarrow>
               (case updateMonitors e w1 of
                  (None, w2, evs) \<Rightarrow> (None, e, w2, After d # evs)
                | (Some err, w2, evs) \<Rightarrow>
                    (case Failer (bot e) of
                       None \<Rightarrow> (Some err, e, w2, After d # evs)
                     | Some Fail \<Rightarrow>
                         (case Fail err w2 of
                            (failed, w3) \<Rightarrow>
                              (if \<not> (True \<and> \<not> failed) then Some err else None,
                               e, w3, After d # evs @ [FailCall err]))))))"

text \<open>
  The loop \<open>for !e.stop { select { ... } }\<close> followed by \<open>return nil\<close>. With the
  schedule used up, the \<open>select\<close> evaluates its timer and waits for ever.
\<close>

fun run_loop :: "select list \<Rightarrow> ('w, 'h) Engine \<Rightarrow> 'w \<Rightarrow> ('w, 'h) config" where
  "run_loop [] e w =
     (if stop e then (Returned None, e, w, [])
      else (case blockTime e w of (d, w1) \<Rightarrow> (Blocked, e, w1, [After d])))"
| "run_loop (s # sched) e w =
     (if stop e then (Returned None, e, w, [])
      else (case select_stmt s e w of
              (Some err, e', w', evs) \<Rightarrow> (Returned (Some err), e', w', evs)
            | (None, e', w', evs) \<Rightarrow> emit evs (run_loop sched e' w')))"

text \<open>The call of \<open>SetUp\<close> when the bot is a \<open>Loader\<close>.\<close>

definition setUp :: "('w, 'h) Engine \<Rightarrow> 'w \<Rightarrow> error option \<times> 'w \<times> 'w event list" where
  "setUp e w =
     (case Loader (bot e) of
        Some SetUp \<Rightarrow> (case SetUp w of (r, w') \<Rightarrow> (r, w', [SetUpCall]))
      | None \<Rightarrow> (None, w, []))"

text \<open>
  \<open>defer tearer.TearDown()\<close>: the deferred call runs when \<open>Run\<close> returns, after the
  loop. A \<open>Run\<close> that is blocked has not returned.
\<close>

definition deferred :: "('w \<Rightarrow> 'w) \<Rightarrow> ('w, 'h) config \<Rightarrow> ('w, 'h) config" where
  "deferred TearDown c =
     (case c of
        (Blocked, e, w, evs) \<Rightarrow> (Blocked, e, w, evs)
      | (Returned r, e, w, evs) \<Rightarrow> (Returned r, e, TearDown w, evs @ [TearDownCall]))"

definition Run :: "select list \<Rightarrow> ('w, 'h) Engine \<Rightarrow> 'w \<Rightarrow> ('w, 'h) config" where
  "Run sched e w =
     (case setUp e w of
        (Some err, w1, evs) \<Rightarrow> (Returned (Some err), e, w1, evs)
      | (None, w1, evs) \<Rightarrow>
          (case Tearer (bot e) of
             Some TearDown \<Rightarrow> emit evs (deferred TearDown (run_loop sched e w1))
           | None \<Rightarrow> emit evs (run_loop sched e w1)))"

subsection \<open>Notions used to state the properties\<close>

text \<open>
  \<open>iterations pre e w\<close> runs the body of the loop once for each entry of \<open>pre\<close>, as
  \<open>run_loop\<close> does, and gives the state with which the loop is back at its head, with
  the events so far; \<open>None\<close> when the loop has ended or returned before.
\<close>

fun iterations ::
  "select list \<Rightarrow> ('w, 'h) Engine \<Rightarrow> 'w \<Rightarrow> (('w, 'h) Engine \<times> 'w \<times> 'w event list) option" where
  "iterations [] e w = Some (e, w, [])"
| "iterations (s # sched) e w =
     (if stop e then None
      else (case select_stmt s e w of
              (Some err, e', w', evs) \<Rightarrow> None
            | (None, e', w', evs) \<Rightarrow>
                (case iterations sched e' w' of
                   None \<Rightarrow> None
                 | Some (e'', w'', evs') \<Rightarrow> Some (e'', w'', evs @ evs'))))"

text \<open>The world after the \<open>Update\<close> of each of the monitors, in order.\<close>

definition world_after :: "'w Monitor list \<Rightarrow> 'w \<Rightarrow> 'w" where
  "world_after mons w = fold (\<lambda>mon w'. snd (Update mon w')) mons w"

text \<open>
  The exported operations that touch the fields of the engine, as calls with their
  arguments and the world they meet, and the engine a sequence of them leaves.
\<close>

datatype ('w, 'h) call =
    WatchUserCall "('w, 'h) constructor" string 'w
  | UnwatchUserCall string
  | RunCall "select list" 'w

fun perform :: "('w, 'h) call \<Rightarrow> ('w, 'h) Engine \<Rightarrow> ('w, 'h) Engine" where
  "perform (WatchUserCall mk user w) e = fst (snd (WatchUser mk e user w))"
| "perform (UnwatchUserCall user) e = snd (UnwatchUser e user)"
| "perform (RunCall sched w) e = fst (snd (Run sched e w))"

definition perform_all :: "('w, 'h) call list \<Rightarrow> ('w, 'h) Engine \<Rightarrow> ('w, 'h) Engine" where
  "perform_all cs e = fold perform cs e"

text \<open>Every element the user map holds was allocated by the list.\<close>

definition allocated :: "('w, 'h) Engine \<Rightarrow> bool" where
  "allocated e = (\<forall>user el. userMonitors e user = Some el \<longrightarrow> el < fresh (monitors e))"

text \<open>An element of the list that no key of the user map refers to.\<close>

definition orphan :: "elem \<Rightarrow> 'w Monitor \<Rightarrow> ('w, 'h) Engine \<Rightarrow> bool" where
  "orphan el mon e =
     ((el, mon) \<in> set (items (monitors e)) \<and> el < fresh (monitors e) \<and>
      (\<forall>user. userMonitors e user \<noteq> Some el))"

subsection \<open>Sample bots, monitors and engines\<close>

text \<open>The world of the samples is a journal: every call appends its name.\<close>

definition logging :: "string \<Rightarrow> string list Monitor" where
  "logging name = Monitor (\<lambda>w. (None, w @ [name]))"

definition failing :: "string \<Rightarrow> error \<Rightarrow> string list Monitor" where
  "failing name err = Monitor (\<lambda>w. (Some err, w @ [name]))"

definition user_monitor :: "(string list, unit) constructor" where
  "user_monitor han user w =
     (if user = [] then (Inl ''no username'', w) else (Inr (logging user), w))"

definition give_up :: "error \<Rightarrow> string list \<Rightarrow> bool \<times> string list" where
  "give_up err w = (True, w @ [''Fail''])"

definition carry_on :: "error \<Rightarrow> string list \<Rightarrow> bool \<times> string list" where
  "carry_on err w = (False, w @ [''Fail''])"

definition tear_down :: "string list \<Rightarrow> string list" where
  "tear_down w = w @ [''TearDown'']"

definition journal_length :: "string list \<Rightarrow> duration \<times> string list" where
  "journal_length w = (int (length w), w)"

definition watcher :: "(string list, unit) bot" where
  "watcher = \<lparr>Loader = None, Tearer = None, Failer = None, BlockTimer = None,
     UserHandler = Some ()\<rparr>"

definition bare :: "(string list, unit) bot" where
  "bare = \<lparr>Loader = None, Tearer = None, Failer = None, BlockTimer = None,
     UserHandler = None\<rparr>"

definition stubborn :: "(string list, unit) bot" where
  "stubborn = \<lparr>Loader = Some (\<lambda>w. (None, w @ [''SetUp''])), Tearer = Some tear_down,
     Failer = Some carry_on, BlockTimer = Some journal_length, UserHandler = Some ()\<rparr>"

definition strict :: "(string list, unit) bot" where
  "strict = stubborn\<lparr>Failer := Some give_up\<rparr>"

definition broken :: "(string list, unit) bot" where
  "broken = stubborn\<lparr>Loader := Some (\<lambda>w. (Some ''no login'', w @ [''SetUp'']))\<rparr>"

text \<open>An engine with an empty registry, and one with three monitors, the second failing.\<close>

definition new_engine :: "('w, 'h) bot \<Rightarrow> ('w, 'h) Engine" where
  "new_engine b = \<lparr>bot = b, stop = False, monitors = \<lparr>items = [], fresh = 0\<rparr>,
     userMonitors = Map.empty\<rparr>"

definition flaky :: "(string list, 'h) bot \<Rightarrow> (string list, 'h) Engine" where
  "flaky b = \<lparr>bot = b, stop = False,
     monitors = \<lparr>items = [(0, logging ''a''), (1, failing ''b'' ''boom''), (2, logging ''c'')],
       fresh = 3\<rparr>,
     userMonitors = Map.empty\<rparr>"

text \<open>\<open>WatchUser("alice")\<close> twice on an empty registry, then \<open>UnwatchUser("alice")\<close>.\<close>

definition alice1 :: "(string list, unit) Engine" where
  "alice1 = fst (snd (WatchUser user_monitor (new_engine watcher) ''alice'' []))"

definition alice2 :: "(string list, unit) Engine" where
  "alice2 = fst (snd (WatchUser user_monitor alice1 ''alice'' []))"

definition alice3 :: "(string list, unit) Engine" where
  "alice3 = snd (UnwatchUser alice2 ''alice'')"

section \<open>Properties\<close>

subsection \<open>Auxiliary facts\<close>

lemma emit_eq: "emit evs (r, e, w, evs') = (r, e, w, evs @ evs')"
  by (simp add: emit_def)

lemma emit_emit: "emit evs (emit evs' c) = emit (evs @ evs') c"
  by (cases c) (simp add: emit_def)

lemma emit_Nil: "emit [] c = c"
  by (cases c) (simp add: emit_def)

lemma fst_emit: "fst (emit evs c) = fst c"
  by (cases c) (simp add: emit_def)

lemma select_stmt_engine:
  "select_stmt s e w = (r, e', w', evs) \<Longrightarrow> e' = e \<or> e' = e\<lparr>stop := True\<rparr>"
  by (cases s; cases "blockTime e w"; cases "updateMonitors e (snd (blockTime e w))")
     (auto simp: select_stmt_def split: option.splits prod.splits)

lemma run_loop_engine:
  "run_loop sched e w = (r, e', w', evs) \<Longrightarrow> e' = e \<or> e' = e\<lparr>stop := True\<rparr>"
proof (induction sched arbitrary: e w r e' w' evs)
  case Nil
  then show ?case by (auto split: if_splits prod.splits)
next
  case (Cons s sched)
  show ?case
  proof (cases "stop e")
    case True
    with Cons.prems show ?thesis by simp
  next
    case False
    obtain r1 e1 w1 evs1 where st: "select_stmt s e w = (r1, e1, w1, evs1)"
      by (cases "select_stmt s e w") auto
    have e1: "e1 = e \<or> e1 = e\<lparr>stop := True\<rparr>" using select_stmt_engine [OF st] .
    show ?thesis
    proof (cases r1)
      case (Some err)
      with Cons.prems False st e1 show ?thesis by auto
    next
      case None
      obtain r2 e2 w2 evs2 where rl: "run_loop sched e1 w1 = (r2, e2, w2, evs2)"
        by (cases "run_loop sched e1 w1") auto
      from Cons.IH [OF rl] have "e2 = e1 \<or> e2 = e1\<lparr>stop := True\<rparr>" .
      moreover from Cons.prems False st None rl have "e' = e2" by (simp add: emit_eq)
      ultimately show ?thesis using e1 by auto
    qed
  qed
qed

lemma Run_engine:
  "Run sched e w = (r, e', w', evs) \<Longrightarrow> e' = e \<or> e' = e\<lparr>stop := True\<rparr>"
proof -
  assume run: "Run sched e w = (r, e', w', evs)"
  obtain r0 w0 evs0 where su: "setUp e w = (r0, w0, evs0)" by (cases "setUp e w") auto
  obtain r1 e1 w1 evs1 where rl: "run_loop sched e w0 = (r1, e1, w1, evs1)"
    by (cases "run_loop sched e w0") auto
  have e1: "e1 = e \<or> e1 = e\<lparr>stop := True\<rparr>" using run_loop_engine [OF rl] .
  show ?thesis
  proof (cases r0)
    case (Some err)
    with run su show ?thesis by (simp add: Run_def)
  next
    case None
    with run su rl have "e' = e1"
      by (cases r1) (auto simp: Run_def emit_eq deferred_def split: option.splits)
    with e1 show ?thesis by simp
  qed
qed

lemma select_stmt_bot:
  "select_stmt s e w = (r, e', w', evs) \<Longrightarrow> bot e' = bot e"
  by (cases s; cases "blockTime e w"; cases "updateMonitors e (snd (blockTime e w))")
     (auto simp: select_stmt_def split: option.splits prod.splits)

lemma iterations_bot:
  "iterations pre e w = Some (e1, w1, evs1) \<Longrightarrow> bot e1 = bot e"
proof (induction pre arbitrary: e w evs1)
  case Nil
  then show ?case by simp
next
  case (Cons s pre)
  obtain r e' w' evs where st: "select_stmt s e w = (r, e', w', evs)"
    by (cases "select_stmt s e w") auto
  from Cons.prems st obtain evs' where "iterations pre e' w' = Some (e1, w1, evs')"
    by (auto split: if_splits option.splits)
  from Cons.IH [OF this] select_stmt_bot [OF st] show ?case by simp
qed

lemma run_loop_append:
  "iterations pre e w = Some (e1, w1, evs1) \<Longrightarrow>
     run_loop (pre @ sched) e w = emit evs1 (run_loop sched e1 w1)"
proof (induction pre arbitrary: e w evs1)
  case Nil
  then show ?case by (simp add: emit_Nil)
next
  case (Cons s pre)
  from Cons.prems have ns: "\<not> stop e" by (simp split: if_splits)
  obtain r e' w' evs where st: "select_stmt s e w = (r, e', w', evs)"
    by (cases "select_stmt s e w") auto
  from Cons.prems ns st have r: "r = None" by (cases r) simp_all
  from Cons.prems ns st r obtain evs' where
    it: "iterations pre e' w' = Some (e1, w1, evs')" and evs1: "evs1 = evs @ evs'"
    by (auto split: option.splits)
  from Cons.IH [OF it] ns st r evs1 show ?case
    by (simp add: emit_emit)
qed

lemma iterations_append:
  "iterations pre e w = Some (e1, w1, evs1) \<Longrightarrow>
     iterations (pre @ post) e w =
       (case iterations post e1 w1 of
          None \<Rightarrow> None
        | Some (e2, w2, evs2) \<Rightarrow> Some (e2, w2, evs1 @ evs2))"
proof (induction pre arbitrary: e w evs1)
  case Nil
  then show ?case by (simp split: option.splits)
next
  case (Cons s pre)
  from Cons.prems have ns: "\<not> stop e" by (simp split: if_splits)
  obtain r e' w' evs where st: "select_stmt s e w = (r, e', w', evs)"
    by (cases "select_stmt s e w") auto
  from Cons.prems ns st have r: "r = None" by (cases r) simp_all
  from Cons.prems ns st r obtain evs' where
    it: "iterations pre e' w' = Some (e1, w1, evs')" and evs1: "evs1 = evs @ evs'"
    by (auto split: option.splits)
  from Cons.IH [OF it] ns st r evs1 show ?case
    by (simp split: option.splits)
qed

lemma run_loop_head:
  "\<not> stop e \<Longrightarrow> \<exists>evs. snd (snd (snd (run_loop sched e w))) = After (fst (blockTime e w)) # evs"
proof (cases sched)
  case Nil
  assume "\<not> stop e"
  with Nil show ?thesis by (simp split: prod.splits)
next
  case (Cons s sched')
  assume ns: "\<not> stop e"
  obtain d w1 where bt: "blockTime e w = (d, w1)" by (cases "blockTime e w")
  obtain r e' w' evs where st: "select_stmt s e w = (r, e', w', evs)"
    by (cases "select_stmt s e w") auto
  have "\<exists>evs'. evs = After d # evs'"
    using st bt by (cases s) (auto simp: select_stmt_def split: option.splits prod.splits)
  then obtain evs' where evs: "evs = After d # evs'" ..
  show ?thesis
  proof (cases r)
    case None
    obtain r2 e2 w2 evs2 where "run_loop sched' e' w' = (r2, e2, w2, evs2)"
      by (cases "run_loop sched' e' w'") auto
    with Cons ns st None evs bt show ?thesis by (simp add: emit_eq)
  next
    case (Some err)
    with Cons ns st evs bt show ?thesis by simp
  qed
qed

lemma fst_deferred: "fst (deferred TearDown c) = fst c"
  by (cases c; cases "fst c") (auto simp: deferred_def)

lemma fst_Run:
  "setUp e w = (None, w0, evs0) \<Longrightarrow> fst (Run sched e w) = fst (run_loop sched e w0)"
  by (simp add: Run_def fst_emit fst_deferred split: option.splits)

lemma update_each_events:
  "update_each mons w = (r, w', evs) \<Longrightarrow> set evs \<subseteq> range UpdateCall"
proof (induction mons arbitrary: w r w' evs)
  case Nil
  then show ?case by simp
next
  case (Cons mon mons)
  obtain r1 w1 where up: "Update mon w = (r1, w1)" by (cases "Update mon w")
  show ?case
  proof (cases r1)
    case (Some err)
    with Cons.prems up show ?thesis by auto
  next
    case None
    obtain r2 w2 evs2 where rest: "update_each mons w1 = (r2, w2, evs2)"
      by (cases "update_each mons w1") auto
    from Cons.prems up None rest have "evs = UpdateCall mon # evs2" by simp
    with Cons.IH [OF rest] show ?thesis by auto
  qed
qed

lemma select_stmt_no_TearDown:
  "select_stmt s e w = (r, e', w', evs) \<Longrightarrow> TearDownCall \<notin> set evs"
proof -
  assume st: "select_stmt s e w = (r, e', w', evs)"
  obtain d w1 where bt: "blockTime e w = (d, w1)" by (cases "blockTime e w")
  obtain r2 w2 evs2 where up: "updateMonitors e w1 = (r2, w2, evs2)"
    by (cases "updateMonitors e w1") auto
  from update_each_events [OF up [unfolded updateMonitors_def]]
  have no: "TearDownCall \<notin> set evs2" by auto
  from st bt up no show ?thesis
    by (cases s; cases r2) (auto simp: select_stmt_def split: option.splits prod.splits)
qed

lemma run_loop_no_TearDown:
  "run_loop sched e w = (r, e', w', evs) \<Longrightarrow> TearDownCall \<notin> set evs"
proof (induction sched arbitrary: e w r e' w' evs)
  case Nil
  then show ?case by (auto split: if_splits prod.splits)
next
  case (Cons s sched)
  show ?case
  proof (cases "stop e")
    case True
    with Cons.prems show ?thesis by auto
  next
    case False
    obtain r1 e1 w1 evs1 where st: "select_stmt s e w = (r1, e1, w1, evs1)"
      by (cases "select_stmt s e w") auto
    note no1 = select_stmt_no_TearDown [OF st]
    show ?thesis
    proof (cases r1)
      case (Some err)
      with Cons.prems False st no1 show ?thesis by auto
    next
      case None
      obtain r2 e2 w2 evs2 where rl: "run_loop sched e1 w1 = (r2, e2, w2, evs2)"
        by (cases "run_loop sched e1 w1") auto
      from Cons.prems False st None rl have "evs = evs1 @ evs2" by (simp add: emit_eq)
      with Cons.IH [OF rl] no1 show ?thesis by simp
    qed
  qed
qed

lemma setUp_no_TearDown: "setUp e w = (r, w', evs) \<Longrightarrow> TearDownCall \<notin> set evs"
  by (auto simp: setUp_def split: option.splits prod.splits)

lemma world_after_Nil: "world_after [] w = w"
  by (simp add: world_after_def)

lemma world_after_Cons: "world_after (mon # mons) w = world_after mons (snd (Update mon w))"
  by (simp add: world_after_def)

lemma update_each_error:
  "k < length mons \<Longrightarrow>
   (\<forall>j<k. fst (Update (mons ! j) (world_after (take j mons) w)) = None) \<Longrightarrow>
   fst (Update (mons ! k) (world_after (take k mons) w)) = Some err \<Longrightarrow>
   update_each mons w =
     (Some err, world_after (take (Suc k) mons) w, map UpdateCall (take (Suc k) mons))"
proof (induction mons arbitrary: w k)
  case Nil
  then show ?case by simp
next
  case (Cons mon mons)
  show ?case
  proof (cases k)
    case 0
    with Cons.prems(3) show ?thesis
      by (cases "Update mon w") (simp add: world_after_Nil world_after_Cons)
  next
    case (Suc k')
    from Cons.prems(2) Suc have ok: "fst (Update mon w) = None"
      by (auto simp: world_after_Nil dest: spec [of _ 0])
    have less: "k' < length mons" using Cons.prems(1) Suc by simp
    have before: "\<forall>j<k'. fst (Update (mons ! j) (world_after (take j mons) (snd (Update mon w)))) = None"
    proof (intro allI impI)
      fix j assume "j < k'"
      then have "Suc j < k" using Suc by simp
      with Cons.prems(2) have "fst (Update ((mon # mons) ! Suc j) (world_after (take (Suc j) (mon # mons)) w)) = None"
        by blast
      then show "fst (Update (mons ! j) (world_after (take j mons) (snd (Update mon w)))) = None"
        by (simp add: world_after_Cons)
    qed
    have at: "fst (Update (mons ! k') (world_after (take k' mons) (snd (Update mon w)))) = Some err"
      using Cons.prems(3) Suc by (simp add: world_after_Cons)
    from Cons.IH [OF less before at] ok Suc show ?thesis
      by (cases "Update mon w") (simp add: world_after_Cons)
  qed
qed

lemma update_each_ok:
  "(\<forall>j<length mons. fst (Update (mons ! j) (world_after (take j mons) w)) = None) \<Longrightarrow>
   update_each mons w = (None, world_after mons w, map UpdateCall mons)"
proof (induction mons arbitrary: w)
  case Nil
  then show ?case by (simp add: world_after_Nil)
next
  case (Cons mon mons)
  from Cons.prems have ok: "fst (Update mon w) = None"
    by (auto simp: world_after_Nil dest: spec [of _ 0])
  have rest: "\<forall>j<length mons. fst (Update (mons ! j) (world_after (take j mons) (snd (Update mon w)))) = None"
  proof (intro allI impI)
    fix j assume "j < length mons"
    then have "Suc j < length (mon # mons)" by simp
    with Cons.prems have "fst (Update ((mon # mons) ! Suc j) (world_after (take (Suc j) (mon # mons)) w)) = None"
      by blast
    then show "fst (Update (mons ! j) (world_after (take j mons) (snd (Update mon w)))) = None"
      by (simp add: world_after_Cons)
  qed
  from Cons.IH [OF rest] ok show ?case
    by (cases "Update mon w") (simp add: world_after_Cons)
qed

lemma orphan_stop: "orphan el mon (e\<lparr>stop := b\<rparr>) = orphan el mon e"
  by (simp add: orphan_def)

lemma orphan_WatchUser:
  "orphan el mon e \<Longrightarrow> orphan el mon (fst (snd (WatchUser mk e user w)))"
  by (auto simp: orphan_def WatchUser_def PushBack_def split: option.splits prod.splits sum.splits)

lemma orphan_UnwatchUser:
  "orphan el mon e \<Longrightarrow> orphan el mon (snd (UnwatchUser e user))"
  by (auto simp: orphan_def UnwatchUser_def Remove_def split: option.splits)

lemma orphan_Run:
  "orphan el mon e \<Longrightarrow> orphan el mon (fst (snd (Run sched e w)))"
  using Run_engine [of sched e w] by (cases "Run sched e w") (auto simp: orphan_stop)

lemma orphan_perform: "orphan el mon e \<Longrightarrow> orphan el mon (perform c e)"
  by (cases c) (simp_all add: orphan_WatchUser orphan_UnwatchUser orphan_Run)

lemma orphan_perform_all: "orphan el mon e \<Longrightarrow> orphan el mon (perform_all cs e)"
  unfolding perform_all_def by (induction cs arbitrary: e) (simp_all add: orphan_perform)

lemma allocatedD: "allocated e \<Longrightarrow> userMonitors e user = Some el \<Longrightarrow> el < fresh (monitors e)"
  by (simp add: allocated_def)

lemma orphan_after_rewatch:
  assumes "allocated e"
    and "WatchUser mk1 e user w = (None, e1, w1)"
    and "WatchUser mk2 e1 user w1' = (None, e2, w2)"
    and "UnwatchUser e2 user = (r, e3)"
  shows "\<exists>el mon. userMonitors e1 user = Some el \<and>
           items (monitors e1) = items (monitors e) @ [(el, mon)] \<and> orphan el mon e3"
  using assms
  by (auto simp: orphan_def WatchUser_def UnwatchUser_def PushBack_def Remove_def
      split: option.splits prod.splits sum.splits if_splits dest: allocatedD)

lemma allocated_WatchUser:
  "allocated e \<Longrightarrow> allocated (fst (snd (WatchUser mk e user w)))"
  by (auto simp: allocated_def WatchUser_def PushBack_def less_Suc_eq
      split: option.splits prod.splits sum.splits)

lemma allocated_UnwatchUser:
  "allocated e \<Longrightarrow> allocated (snd (UnwatchUser e user))"
  by (auto simp: allocated_def UnwatchUser_def Remove_def split: option.splits)

lemma allocated_Run: "allocated e \<Longrightarrow> allocated (fst (snd (Run sched e w)))"
  using Run_engine [of sched e w] by (cases "Run sched e w") (auto simp: allocated_def)

lemma allocated_perform_all: "allocated e \<Longrightarrow> allocated (perform_all cs e)"
  unfolding perform_all_def
proof (induction cs arbitrary: e)
  case Nil
  then show ?case by simp
next
  case (Cons c cs)
  have "allocated (perform c e)"
    using Cons.prems by (cases c) (simp_all add: allocated_WatchUser allocated_UnwatchUser allocated_Run)
  from Cons.IH [OF this] show ?case by simp
qed

lemma allocated_new_engine: "allocated (new_engine b)"
  by (simp add: allocated_def new_engine_def)

lemma snapshot_WatchUser:
  "WatchUser mk e0 user w0 = (None, e, w1) \<Longrightarrow> \<exists>mon. snapshot e = snapshot e0 @ [mon]"
  by (auto simp: WatchUser_def PushBack_def snapshot_def split: option.splits prod.splits sum.splits)

text \<open>The samples, unfolded.\<close>

lemmas sample_defs = logging_def failing_def user_monitor_def give_up_def carry_on_def tear_down_def
  journal_length_def watcher_def bare_def stubborn_def strict_def broken_def new_engine_def flaky_def

lemmas engine_defs = Run_def setUp_def deferred_def emit_def select_stmt_def blockTime_def
  updateMonitors_def snapshot_def

lemma alice1_eq: "alice1 = \<lparr>bot = watcher, stop = False,
   monitors = \<lparr>items = [(0, logging ''alice'')], fresh = 1\<rparr>,
   userMonitors = [''alice'' \<mapsto> 0]\<rparr>"
  by (simp add: alice1_def WatchUser_def new_engine_def watcher_def user_monitor_def PushBack_def)

lemma alice2_eq: "alice2 = \<lparr>bot = watcher, stop = False,
   monitors = \<lparr>items = [(0, logging ''alice''), (1, logging ''alice'')], fresh = 2\<rparr>,
   userMonitors = [''alice'' \<mapsto> 1]\<rparr>"
  by (simp add: alice2_def alice1_eq WatchUser_def watcher_def user_monitor_def PushBack_def)

lemma alice3_eq: "alice3 = \<lparr>bot = watcher, stop = False,
   monitors = \<lparr>items = [(0, logging ''alice'')], fresh = 2\<rparr>,
   userMonitors = Map.empty\<rparr>"
  by (simp add: alice3_def alice2_eq UnwatchUser_def Remove_def)

lemma flaky_pass:
  "updateMonitors (flaky b) w =
     (Some ''boom'', w @ [''a'', ''b''],
      [UpdateCall (logging ''a''), UpdateCall (failing ''b'' ''boom'')])"
  by (simp add: updateMonitors_def snapshot_def flaky_def logging_def failing_def)

subsection \<open>The failure policy\<close>

text \<open>
  C1, as the code has it. Let the start-up succeed and the loop come back to its head
  after any number of iterations, with the stop flag unset; let the timer fire and the
  polling pass of this iteration return the error \<open>err\<close>. When the bot is no \<open>Failer\<close>,
  \<open>Run\<close> returns \<open>err\<close>. When it is one and \<open>Fail(err)\<close> is true, \<open>Run\<close> returns \<open>err\<close>.
  When \<open>Fail(err)\<close> is false, \<open>Run\<close> does not return here: the loop is back at its head
  and goes on with the rest of the schedule.
\<close>

theorem failure_policy:
  assumes "setUp e w = (None, w0, evs0)"
    and "iterations pre e w0 = Some (e1, w1, evs1)"
    and "\<not> stop e1"
    and "blockTime e1 w1 = (d, w2)"
    and "updateMonitors e1 w2 = (Some err, w3, evs)"
  shows "(Failer (bot e) = None \<longrightarrow>
            fst (Run (pre @ TimerFired # sched) e w) = Returned (Some err)) \<and>
         (\<forall>Fail w4. Failer (bot e) = Some Fail \<and> Fail err w3 = (True, w4) \<longrightarrow>
            fst (Run (pre @ TimerFired # sched) e w) = Returned (Some err)) \<and>
         (\<forall>Fail w4. Failer (bot e) = Some Fail \<and> Fail err w3 = (False, w4) \<longrightarrow>
            iterations (pre @ [TimerFired]) e w0 =
              Some (e1, w4, evs1 @ After d # evs @ [FailCall err]) \<and>
            run_loop (pre @ TimerFired # sched) e w0 =
              emit (evs1 @ After d # evs @ [FailCall err]) (run_loop sched e1 w4) \<and>
            fst (Run (pre @ TimerFired # sched) e w) = fst (run_loop sched e1 w4))"
proof -
  have b: "bot e1 = bot e" using iterations_bot [OF assms(2)] .
  have run: "fst (Run (pre @ TimerFired # sched) e w) = fst (run_loop (TimerFired # sched) e1 w1)"
    by (simp add: fst_Run [OF assms(1)] run_loop_append [OF assms(2)] fst_emit)
  have absent: "fst (run_loop (TimerFired # sched) e1 w1) = Returned (Some err)"
    if "Failer (bot e) = None"
    using that assms(3-5) b by (simp add: select_stmt_def)
  have fatal: "fst (run_loop (TimerFired # sched) e1 w1) = Returned (Some err)"
    if "Failer (bot e) = Some Fail" "Fail err w3 = (True, w4)" for Fail w4
    using that assms(3-5) b by (simp add: select_stmt_def)
  have body: "select_stmt TimerFired e1 w1 = (None, e1, w4, After d # evs @ [FailCall err])"
    if "Failer (bot e) = Some Fail" "Fail err w3 = (False, w4)" for Fail w4
    using that assms(4,5) b by (simp add: select_stmt_def)
  have again: "iterations (pre @ [TimerFired]) e w0 =
        Some (e1, w4, evs1 @ After d # evs @ [FailCall err])"
    if "Failer (bot e) = Some Fail" "Fail err w3 = (False, w4)" for Fail w4
    using body [OF that] assms(3) by (simp add: iterations_append [OF assms(2)])
  have next_iteration: "run_loop (pre @ TimerFired # sched) e w0 =
        emit (evs1 @ After d # evs @ [FailCall err]) (run_loop sched e1 w4)"
    if "Failer (bot e) = Some Fail" "Fail err w3 = (False, w4)" for Fail w4
    using run_loop_append [OF again [OF that], of sched] by simp
  have outcome: "fst (Run (pre @ TimerFired # sched) e w) = fst (run_loop sched e1 w4)"
    if "Failer (bot e) = Some Fail" "Fail err w3 = (False, w4)" for Fail w4
    using next_iteration [OF that] by (simp add: fst_Run [OF assms(1)] fst_emit)
  show ?thesis
    using run absent fatal again next_iteration outcome by (intro conjI allI impI) auto
qed

text \<open>
  With the two answers of \<open>Fail\<close> the other way round the statement fails. Here
  \<open>Fail\<close> answers true and \<open>Run\<close> returns the error of the pass; then \<open>Fail\<close>
  answers false and \<open>Run\<close> goes on, to return nil at the stop signal.
\<close>

theorem failure_policy_counterexample:
  "Failer (bot (flaky strict)) = Some give_up \<and>
   give_up ''boom'' [''SetUp'', ''a'', ''b''] = (True, [''SetUp'', ''a'', ''b'', ''Fail'']) \<and>
   Run [TimerFired, StopSig] (flaky strict) [] =
     (Returned (Some ''boom''), flaky strict, [''SetUp'', ''a'', ''b'', ''Fail'', ''TearDown''],
      [SetUpCall, After 1, UpdateCall (logging ''a''), UpdateCall (failing ''b'' ''boom''),
       FailCall ''boom'', TearDownCall]) \<and>
   Failer (bot (flaky stubborn)) = Some carry_on \<and>
   carry_on ''boom'' [''SetUp'', ''a'', ''b''] = (False, [''SetUp'', ''a'', ''b'', ''Fail'']) \<and>
   Run [TimerFired, StopSig] (flaky stubborn) [] =
     (Returned None, (flaky stubborn)\<lparr>stop := True\<rparr>,
      [''SetUp'', ''a'', ''b'', ''Fail'', ''TearDown''],
      [SetUpCall, After 1, UpdateCall (logging ''a''), UpdateCall (failing ''b'' ''boom''),
       FailCall ''boom'', After 4, StopRecv, TearDownCall])"
  by (simp add: sample_defs engine_defs)

theorem failure_policy_witness:
  "Run [TimerFired, StopSig] (flaky strict) [] =
     (Returned (Some ''boom''), flaky strict, [''SetUp'', ''a'', ''b'', ''Fail'', ''TearDown''],
      [SetUpCall, After 1, UpdateCall (logging ''a''), UpdateCall (failing ''b'' ''boom''),
       FailCall ''boom'', TearDownCall]) \<and>
   fst (Run [TimerFired, StopSig] (flaky strict) []) = Returned (Some ''boom'') \<and>
   fst (Run [TimerFired, StopSig] (flaky watcher) []) = Returned (Some ''boom'') \<and>
   iterations ([TimerFired] @ [TimerFired]) (flaky stubborn) [''SetUp''] =
     Some (flaky stubborn, [''SetUp'', ''a'', ''b'', ''Fail'', ''a'', ''b'', ''Fail''],
       [After 1, UpdateCall (logging ''a''), UpdateCall (failing ''b'' ''boom''), FailCall ''boom''] @
       After 4 # [UpdateCall (logging ''a''), UpdateCall (failing ''b'' ''boom'')] @
       [FailCall ''boom''])"
proof -
  have strict: "fst (Run ([] @ TimerFired # [StopSig]) (flaky strict) []) = Returned (Some ''boom'')"
  proof -
    have 1: "setUp (flaky strict) [] = (None, [''SetUp''], [SetUpCall])"
      by (simp add: setUp_def sample_defs)
    have 2: "iterations [] (flaky strict) [''SetUp''] = Some (flaky strict, [''SetUp''], [])"
      by simp
    have 3: "\<not> stop (flaky strict)" by (simp add: flaky_def)
    have 4: "blockTime (flaky strict) [''SetUp''] = (1, [''SetUp''])"
      by (simp add: blockTime_def sample_defs)
    from failure_policy [OF 1 2 3 4 flaky_pass, of "[StopSig]"] show ?thesis
      by (simp add: sample_defs)
  qed
  have absent: "fst (Run ([] @ TimerFired # [StopSig]) (flaky watcher) []) = Returned (Some ''boom'')"
  proof -
    have 1: "setUp (flaky watcher) [] = (None, [], [])"
      by (simp add: setUp_def sample_defs)
    have 2: "iterations [] (flaky watcher) [] = Some (flaky watcher, [], [])"
      by simp
    have 3: "\<not> stop (flaky watcher)" by (simp add: flaky_def)
    have 4: "blockTime (flaky watcher) [] = (defaultBlockTime, [])"
      by (simp add: blockTime_def sample_defs)
    from failure_policy [OF 1 2 3 4 flaky_pass, of "[StopSig]"] show ?thesis
      by (simp add: sample_defs)
  qed
  have stubborn: "iterations ([TimerFired] @ [TimerFired]) (flaky stubborn) [''SetUp''] =
     Some (flaky stubborn, [''SetUp'', ''a'', ''b'', ''Fail'', ''a'', ''b'', ''Fail''],
       [After 1, UpdateCall (logging ''a''), UpdateCall (failing ''b'' ''boom''), FailCall ''boom''] @
       After 4 # [UpdateCall (logging ''a''), UpdateCall (failing ''b'' ''boom'')] @
       [FailCall ''boom''])"
  proof -
    have 1: "setUp (flaky stubborn) [] = (None, [''SetUp''], [SetUpCall])"
      by (simp add: setUp_def sample_defs)
    have 2: "iterations [TimerFired] (flaky stubborn) [''SetUp''] =
        Some (flaky stubborn, [''SetUp'', ''a'', ''b'', ''Fail''],
          [After 1, UpdateCall (logging ''a''), UpdateCall (failing ''b'' ''boom''), FailCall ''boom''])"
      by (simp add: sample_defs engine_defs)
    have 3: "\<not> stop (flaky stubborn)" by (simp add: flaky_def)
    have 4: "blockTime (flaky stubborn) [''SetUp'', ''a'', ''b'', ''Fail''] =
        (4, [''SetUp'', ''a'', ''b'', ''Fail''])"
      by (simp add: blockTime_def sample_defs)
    from failure_policy [OF 1 2 3 4 flaky_pass, of "[StopSig]"] show ?thesis
      by (simp add: sample_defs)
  qed
  have full: "Run [TimerFired, StopSig] (flaky strict) [] =
     (Returned (Some ''boom''), flaky strict, [''SetUp'', ''a'', ''b'', ''Fail'', ''TearDown''],
      [SetUpCall, After 1, UpdateCall (logging ''a''), UpdateCall (failing ''b'' ''boom''),
       FailCall ''boom'', TearDownCall])"
    by (simp add: sample_defs engine_defs)
  from strict absent stubborn full show ?thesis by simp
qed

subsection \<open>The registry\<close>

text \<open>
  C2, evaluated. After \<open>WatchUser("alice")\<close> twice on an empty registry the list holds
  two monitors for alice, and the user map refers to the second.
\<close>

theorem rewatch_two_monitors:
  "items (monitors alice2) = [(0, logging ''alice''), (1, logging ''alice'')] \<and>
   length (snapshot alice2) = 2 \<and> userMonitors alice2 ''alice'' = Some 1"
  by (simp add: alice2_eq snapshot_def)

text \<open>
  C3. Let every element of the user map be one the list allocated. After two successful
  \<open>WatchUser(user)\<close> and an \<open>UnwatchUser(user)\<close>, the element that the first call pushed
  (the one the map held after it) is still in the list, although the map has no entry
  for \<open>user\<close>; and after any further sequence of \<open>WatchUser\<close>, \<open>UnwatchUser\<close> and \<open>Run\<close>
  it is still there, and its monitor is in the snapshot of a polling pass.
\<close>

theorem rewatch_orphan_stays:
  assumes "allocated e"
    and "WatchUser mk1 e user w = (None, e1, w1)"
    and "WatchUser mk2 e1 user w1' = (None, e2, w2)"
    and "UnwatchUser e2 user = (r, e3)"
  shows "\<exists>el mon. userMonitors e1 user = Some el \<and>
           items (monitors e1) = items (monitors e) @ [(el, mon)] \<and>
           userMonitors e3 user = None \<and>
           (\<forall>cs. (el, mon) \<in> set (items (monitors (perform_all cs e3))) \<and>
                 mon \<in> set (snapshot (perform_all cs e3)))"
proof -
  from orphan_after_rewatch [OF assms] obtain el mon where
    first: "userMonitors e1 user = Some el"
      "items (monitors e1) = items (monitors e) @ [(el, mon)]" and
    orph: "orphan el mon e3"
    by blast
  have gone: "userMonitors e3 user = None"
    using assms(4) by (auto simp: UnwatchUser_def split: option.splits)
  have "(el, mon) \<in> set (items (monitors (perform_all cs e3)))" for cs
    using orphan_perform_all [OF orph, of cs] by (simp add: orphan_def)
  moreover from this have "mon \<in> set (snapshot (perform_all cs e3))" for cs
    unfolding snapshot_def by (metis image_eqI set_map snd_conv)
  ultimately show ?thesis using first gone by blast
qed

theorem rewatch_orphan_stays_witness:
  "allocated (new_engine watcher) \<and>
   snapshot alice3 = [logging ''alice''] \<and>
   userMonitors alice3 ''alice'' = None \<and>
   (0, logging ''alice'') \<in> set (items (monitors (perform_all
      [UnwatchUserCall ''alice'', WatchUserCall user_monitor ''bob'' [],
       UnwatchUserCall ''bob'', RunCall [TimerFired, StopSig] []] alice3)))"
proof -
  have a: "allocated (new_engine watcher)" by (simp add: allocated_def new_engine_def)
  have w1: "WatchUser user_monitor (new_engine watcher) ''alice'' [] = (None, alice1, [])"
    by (simp add: alice1_eq WatchUser_def new_engine_def watcher_def user_monitor_def PushBack_def)
  have w2: "WatchUser user_monitor alice1 ''alice'' [] = (None, alice2, [])"
    by (simp add: alice2_eq alice1_eq WatchUser_def watcher_def user_monitor_def PushBack_def)
  have u: "UnwatchUser alice2 ''alice'' = (None, alice3)"
    by (simp add: alice3_eq alice2_eq UnwatchUser_def Remove_def)
  from rewatch_orphan_stays [OF a w1 w2 u] obtain el mon where
    first: "userMonitors alice1 ''alice'' = Some el"
      "items (monitors alice1) = items (monitors (new_engine watcher)) @ [(el, mon)]" and
    stays: "\<And>cs. (el, mon) \<in> set (items (monitors (perform_all cs alice3)))"
    by blast
  from first have "el = 0" "mon = logging ''alice''"
    by (simp_all add: alice1_eq new_engine_def)
  with stays show ?thesis
    using a by (simp add: alice3_eq snapshot_def)
qed

text \<open>
  C8. On a bot that is no \<open>UserHandler\<close>, \<open>WatchUser\<close> returns the error "bot cannot
  handle user posts or comments" and the engine is as it was; when the monitor
  constructor returns an error, \<open>WatchUser\<close> returns that error and the engine is as it
  was.
\<close>

theorem WatchUser_failure_keeps_registry:
  "(UserHandler (bot e) = None \<longrightarrow>
      WatchUser mk e user w = (Some ''bot cannot handle user posts or comments'', e, w)) \<and>
   (\<forall>han err w'. UserHandler (bot e) = Some han \<and> mk han user w = (Inl err, w') \<longrightarrow>
      WatchUser mk e user w = (Some err, e, w'))"
  by (simp add: WatchUser_def)

theorem WatchUser_failure_keeps_registry_witness:
  "WatchUser user_monitor (flaky bare) ''alice'' [] =
     (Some ''bot cannot handle user posts or comments'', flaky bare, []) \<and>
   WatchUser user_monitor alice1 [] [] = (Some ''no username'', alice1, [])"
proof -
  have "UserHandler (bot (flaky bare)) = None" by (simp add: sample_defs)
  with WatchUser_failure_keeps_registry [of "flaky bare" user_monitor "''alice''" "[]"]
  have 1: "WatchUser user_monitor (flaky bare) ''alice'' [] =
     (Some ''bot cannot handle user posts or comments'', flaky bare, [])"
    by blast
  have "UserHandler (bot alice1) = Some ()" "user_monitor () [] [] = (Inl ''no username'', [])"
    by (simp_all add: alice1_eq sample_defs)
  with WatchUser_failure_keeps_registry [of alice1 user_monitor "[]" "[]"]
  have 2: "WatchUser user_monitor alice1 [] [] = (Some ''no username'', alice1, [])"
    by blast
  from 1 2 show ?thesis by simp
qed

text \<open>
  C9. \<open>UnwatchUser\<close> returns nil on every engine and for every user, watched or not,
  and a second \<open>UnwatchUser\<close> of the same user right after changes nothing.
\<close>

theorem UnwatchUser_idempotent:
  "fst (UnwatchUser e user) = None \<and>
   UnwatchUser (snd (UnwatchUser e user)) user = (None, snd (UnwatchUser e user))"
  by (simp add: UnwatchUser_def split: option.splits)

theorem UnwatchUser_idempotent_witness:
  "UnwatchUser alice1 ''alice'' = (None, (new_engine watcher)\<lparr>monitors := \<lparr>items = [], fresh = 1\<rparr>\<rparr>) \<and>
   UnwatchUser (snd (UnwatchUser alice1 ''alice'')) ''alice'' =
     (None, (new_engine watcher)\<lparr>monitors := \<lparr>items = [], fresh = 1\<rparr>\<rparr>)"
proof -
  have "UnwatchUser alice1 ''alice'' =
      (None, (new_engine watcher)\<lparr>monitors := \<lparr>items = [], fresh = 1\<rparr>\<rparr>)"
    by (simp add: alice1_eq UnwatchUser_def Remove_def new_engine_def)
  with UnwatchUser_idempotent [of alice1 "''alice''"] show ?thesis by simp
qed

subsection \<open>The polling pass\<close>

text \<open>
  C4. A polling pass calls \<open>Update\<close> on the monitors of its snapshot one after the other,
  in the order of the list, which is the order of insertion since \<open>WatchUser\<close> pushes at
  the back. If the \<open>Update\<close> at position \<open>k\<close> is the first to return an error, the
  pass has called the monitors up to \<open>k\<close> and no other, and returns that error; if every
  \<open>Update\<close> returns nil, the pass has called them all and returns nil.
\<close>

theorem pass_stops_at_first_error:
  "(\<forall>k err. k < length (snapshot e) \<and>
       (\<forall>j<k. fst (Update (snapshot e ! j) (world_after (take j (snapshot e)) w)) = None) \<and>
       fst (Update (snapshot e ! k) (world_after (take k (snapshot e)) w)) = Some err \<longrightarrow>
       updateMonitors e w =
         (Some err, world_after (take (Suc k) (snapshot e)) w,
          map UpdateCall (take (Suc k) (snapshot e)))) \<and>
   ((\<forall>j<length (snapshot e).
       fst (Update (snapshot e ! j) (world_after (take j (snapshot e)) w)) = None) \<longrightarrow>
       updateMonitors e w = (None, world_after (snapshot e) w, map UpdateCall (snapshot e))) \<and>
   (\<forall>mk e0 user w0 w1. WatchUser mk e0 user w0 = (None, e, w1) \<longrightarrow>
       (\<exists>mon. snapshot e = snapshot e0 @ [mon]))"
  unfolding updateMonitors_def
  using update_each_error [of _ "snapshot e" w] update_each_ok [of "snapshot e" w]
    snapshot_WatchUser [of _ _ _ _ e]
  by blast

theorem pass_stops_at_first_error_witness:
  "updateMonitors (flaky bare) [] =
     (Some ''boom'', [''a'', ''b''],
      [UpdateCall (logging ''a''), UpdateCall (failing ''b'' ''boom'')]) \<and>
   updateMonitors alice2 [] =
     (None, [''alice'', ''alice''],
      [UpdateCall (logging ''alice''), UpdateCall (logging ''alice'')]) \<and>
   (\<exists>mon. snapshot alice2 = snapshot alice1 @ [mon])"
proof -
  have snap: "snapshot (flaky bare) = [logging ''a'', failing ''b'' ''boom'', logging ''c'']"
    by (simp add: snapshot_def flaky_def)
  have less: "\<forall>j<Suc 0. fst (Update (snapshot (flaky bare) ! j)
      (world_after (take j (snapshot (flaky bare))) [])) = None"
    by (simp add: snap world_after_def logging_def)
  have at: "fst (Update (snapshot (flaky bare) ! Suc 0)
      (world_after (take (Suc 0) (snapshot (flaky bare))) [])) = Some ''boom''"
    by (simp add: snap world_after_def logging_def failing_def)
  have "Suc 0 < length (snapshot (flaky bare))" by (simp add: snap)
  with less at pass_stops_at_first_error [of "flaky bare" "[]"]
  have "updateMonitors (flaky bare) [] =
      (Some ''boom'', world_after (take (Suc (Suc 0)) (snapshot (flaky bare))) [],
       map UpdateCall (take (Suc (Suc 0)) (snapshot (flaky bare))))"
    by blast
  then have first: "updateMonitors (flaky bare) [] =
     (Some ''boom'', [''a'', ''b''],
      [UpdateCall (logging ''a''), UpdateCall (failing ''b'' ''boom'')])"
    by (simp add: snap world_after_def logging_def failing_def)
  have snap2: "snapshot alice2 = [logging ''alice'', logging ''alice'']"
    by (simp add: snapshot_def alice2_eq)
  have all: "\<forall>j<length (snapshot alice2). fst (Update (snapshot alice2 ! j)
      (world_after (take j (snapshot alice2)) [])) = None"
    by (simp add: snap2 world_after_def logging_def less_Suc_eq)
  with pass_stops_at_first_error [of alice2 "[]"]
  have "updateMonitors alice2 [] =
      (None, world_after (snapshot alice2) [], map UpdateCall (snapshot alice2))"
    by blast
  then have second: "updateMonitors alice2 [] =
     (None, [''alice'', ''alice''],
      [UpdateCall (logging ''alice''), UpdateCall (logging ''alice'')])"
    by (simp add: snap2 world_after_def logging_def)
  have "WatchUser user_monitor alice1 ''alice'' [] = (None, alice2, [])"
    by (simp add: alice2_eq alice1_eq WatchUser_def watcher_def user_monitor_def PushBack_def)
  with pass_stops_at_first_error [of alice2 "[]"]
  have "\<exists>mon. snapshot alice2 = snapshot alice1 @ [mon]"
    by blast
  with first second show ?thesis by simp
qed

subsection \<open>Start-up and tear-down\<close>

text \<open>
  C5. Let the bot be a \<open>Tearer\<close> and the start-up succeed (or the bot be no \<open>Loader\<close>).
  Whenever \<open>Run\<close> returns, with nil or with an error, \<open>TearDown\<close> has been called once, on
  the world the loop left, as the last call of the run.
\<close>

theorem teardown_once:
  assumes "Tearer (bot e) = Some TearDown"
    and "setUp e w = (None, w0, evs0)"
    and "Run sched e w = (Returned r, e', w', evs)"
  shows "\<exists>w1 evs1. run_loop sched e w0 = (Returned r, e', w1, evs1) \<and>
           w' = TearDown w1 \<and> evs = evs0 @ evs1 @ [TearDownCall] \<and>
           count_list evs TearDownCall = 1"
proof -
  obtain r1 e1 w1 evs1 where rl: "run_loop sched e w0 = (r1, e1, w1, evs1)"
    by (cases "run_loop sched e w0") auto
  from assms rl have r1: "r1 = Returned r"
    by (cases r1) (simp_all add: Run_def deferred_def emit_eq)
  from assms rl r1 have parts: "e' = e1" "w' = TearDown w1" "evs = evs0 @ evs1 @ [TearDownCall]"
    by (simp_all add: Run_def deferred_def emit_eq)
  have "TearDownCall \<notin> set (evs0 @ evs1)"
    using setUp_no_TearDown [OF assms(2)] run_loop_no_TearDown [OF rl] by simp
  then have "count_list (evs0 @ evs1) TearDownCall = 0"
    by (simp add: count_list_0_iff)
  then have "count_list evs TearDownCall = 1"
    using parts(3) by simp
  with rl r1 parts show ?thesis by simp
qed

theorem teardown_once_witness:
  "Run [TimerFired, StopSig] (flaky strict) [] =
     (Returned (Some ''boom''), flaky strict, [''SetUp'', ''a'', ''b'', ''Fail'', ''TearDown''],
      [SetUpCall, After 1, UpdateCall (logging ''a''), UpdateCall (failing ''b'' ''boom''),
       FailCall ''boom'', TearDownCall]) \<and>
   count_list (snd (snd (snd (Run [TimerFired, StopSig] (flaky strict) [])))) TearDownCall = 1 \<and>
   Run [StopSig] (flaky stubborn) [] =
     (Returned None, (flaky stubborn)\<lparr>stop := True\<rparr>, [''SetUp'', ''TearDown''],
      [SetUpCall, After 1, StopRecv, TearDownCall]) \<and>
   count_list (snd (snd (snd (Run [StopSig] (flaky stubborn) [])))) TearDownCall = 1"
proof -
  have fatal: "Run [TimerFired, StopSig] (flaky strict) [] =
     (Returned (Some ''boom''), flaky strict, [''SetUp'', ''a'', ''b'', ''Fail'', ''TearDown''],
      [SetUpCall, After 1, UpdateCall (logging ''a''), UpdateCall (failing ''b'' ''boom''),
       FailCall ''boom'', TearDownCall])"
    by (simp add: sample_defs engine_defs)
  have t1: "Tearer (bot (flaky strict)) = Some tear_down" by (simp add: sample_defs)
  have s1: "setUp (flaky strict) [] = (None, [''SetUp''], [SetUpCall])"
    by (simp add: setUp_def sample_defs)
  from teardown_once [OF t1 s1 fatal]
  have c1: "count_list (snd (snd (snd (Run [TimerFired, StopSig] (flaky strict) []))))
      TearDownCall = 1"
    unfolding fatal by (elim exE conjE) simp
  have stopped: "Run [StopSig] (flaky stubborn) [] =
     (Returned None, (flaky stubborn)\<lparr>stop := True\<rparr>, [''SetUp'', ''TearDown''],
      [SetUpCall, After 1, StopRecv, TearDownCall])"
    by (simp add: sample_defs engine_defs)
  have t2: "Tearer (bot (flaky stubborn)) = Some tear_down" by (simp add: sample_defs)
  have s2: "setUp (flaky stubborn) [] = (None, [''SetUp''], [SetUpCall])"
    by (simp add: setUp_def sample_defs)
  from teardown_once [OF t2 s2 stopped]
  have c2: "count_list (snd (snd (snd (Run [StopSig] (flaky stubborn) [])))) TearDownCall = 1"
    unfolding stopped by (elim exE conjE) simp
  from fatal c1 stopped c2 show ?thesis by simp
qed

text \<open>
  C6. When \<open>SetUp\<close> returns an error, \<open>Run\<close> returns that error; the engine is as it
  was, and \<open>SetUp\<close> is the only call made: no polling pass and no \<open>TearDown\<close>.
\<close>

theorem startup_error_aborts:
  assumes "Loader (bot e) = Some SetUp" and "SetUp w = (Some err, w0)"
  shows "Run sched e w = (Returned (Some err), e, w0, [SetUpCall])"
  using assms by (simp add: Run_def setUp_def)

theorem startup_error_aborts_witness:
  "Run [TimerFired, StopSig] (flaky broken) [] =
     (Returned (Some ''no login''), flaky broken, [''SetUp''], [SetUpCall])"
  using startup_error_aborts [of "flaky broken" "\<lambda>w. (Some ''no login'', w @ [''SetUp''])" "[]"
      "''no login''" "[''SetUp'']" "[TimerFired, StopSig]"]
  by (simp add: broken_def stubborn_def flaky_def)

subsection \<open>Stopping\<close>

text \<open>
  C7. Let the start-up succeed and the loop be back at its head after any number of
  iterations, with the stop flag unset. When its \<open>select\<close> receives the stop signal,
  \<open>Run\<close> returns nil with the stop flag set, whatever the schedule holds after the
  signal; the receipt is followed by no call but the deferred \<open>TearDown\<close>.
\<close>

theorem stop_signal_ends_run:
  assumes "setUp e w = (None, w0, evs0)"
    and "iterations pre e w0 = Some (e1, w1, evs1)"
    and "\<not> stop e1"
    and "blockTime e1 w1 = (d, w2)"
  shows "Run (pre @ StopSig # sched) e w =
           (case Tearer (bot e) of
              None \<Rightarrow> (Returned None, e1\<lparr>stop := True\<rparr>, w2, evs0 @ evs1 @ [After d, StopRecv])
            | Some TearDown \<Rightarrow>
                (Returned None, e1\<lparr>stop := True\<rparr>, TearDown w2,
                 evs0 @ evs1 @ [After d, StopRecv, TearDownCall]))"
proof -
  have "run_loop (StopSig # sched) e1 w1 = (Returned None, e1\<lparr>stop := True\<rparr>, w2, [After d, StopRecv])"
    using assms(3,4) by (cases sched) (simp_all add: select_stmt_def emit_eq)
  then have "run_loop (pre @ StopSig # sched) e w0 =
      (Returned None, e1\<lparr>stop := True\<rparr>, w2, evs1 @ [After d, StopRecv])"
    by (simp add: run_loop_append [OF assms(2)] emit_eq)
  then show ?thesis
    using assms(1) by (simp add: Run_def deferred_def emit_eq split: option.splits)
qed

theorem stop_signal_ends_run_witness:
  "Run ([TimerFired] @ StopSig # [TimerFired, TimerFired]) (flaky stubborn) [] =
     (Returned None, (flaky stubborn)\<lparr>stop := True\<rparr>,
      [''SetUp'', ''a'', ''b'', ''Fail'', ''TearDown''],
      [SetUpCall] @
      [After 1, UpdateCall (logging ''a''), UpdateCall (failing ''b'' ''boom''), FailCall ''boom''] @
      [After 4, StopRecv, TearDownCall])"
proof -
  have 1: "setUp (flaky stubborn) [] = (None, [''SetUp''], [SetUpCall])"
    by (simp add: setUp_def sample_defs)
  have 2: "iterations [TimerFired] (flaky stubborn) [''SetUp''] =
      Some (flaky stubborn, [''SetUp'', ''a'', ''b'', ''Fail''],
        [After 1, UpdateCall (logging ''a''), UpdateCall (failing ''b'' ''boom''), FailCall ''boom''])"
    by (simp add: sample_defs engine_defs)
  have 3: "\<not> stop (flaky stubborn)" by (simp add: flaky_def)
  have 4: "blockTime (flaky stubborn) [''SetUp'', ''a'', ''b'', ''Fail''] =
      (4, [''SetUp'', ''a'', ''b'', ''Fail''])"
    by (simp add: blockTime_def sample_defs)
  from stop_signal_ends_run [OF 1 2 3 4, of "[TimerFired, TimerFired]"] show ?thesis
    by (simp add: sample_defs)
qed

subsection \<open>The interval\<close>

text \<open>
  C10. Whenever the loop is at its head with the stop flag unset, the next event is a
  timer set to what \<open>blockTime\<close> gives in the world of that moment: the value of the
  bot's \<open>BlockTime\<close> called then, or, for a bot that is no \<open>BlockTimer\<close>, the default,
  thirty of which make a minute.
\<close>

theorem interval_each_iteration:
  assumes "iterations pre e w = Some (e1, w1, evs1)" and "\<not> stop e1"
  shows "(\<exists>evs2. snd (snd (snd (run_loop (pre @ sched) e w))) =
            evs1 @ After (fst (blockTime e1 w1)) # evs2) \<and>
         (\<forall>BlockTime. BlockTimer (bot e) = Some BlockTime \<longrightarrow> blockTime e1 w1 = BlockTime w1) \<and>
         (BlockTimer (bot e) = None \<longrightarrow>
            blockTime e1 w1 = (defaultBlockTime, w1) \<and> 30 * defaultBlockTime = Minute)"
proof -
  from run_loop_head [OF assms(2), of sched w1] obtain evs2 where
    "snd (snd (snd (run_loop sched e1 w1))) = After (fst (blockTime e1 w1)) # evs2" ..
  then have "snd (snd (snd (run_loop (pre @ sched) e w))) =
      evs1 @ After (fst (blockTime e1 w1)) # evs2"
    by (cases "run_loop sched e1 w1") (simp add: run_loop_append [OF assms(1)] emit_eq)
  moreover have "bot e1 = bot e" using iterations_bot [OF assms(1)] .
  ultimately show ?thesis
    by (simp add: blockTime_def defaultBlockTime_def Minute_def)
qed

theorem interval_each_iteration_witness:
  "(\<exists>evs2. snd (snd (snd (run_loop ([TimerFired] @ [StopSig]) (flaky stubborn) [''SetUp'']))) =
      [After 1, UpdateCall (logging ''a''), UpdateCall (failing ''b'' ''boom''), FailCall ''boom''] @
      After 4 # evs2) \<and>
   blockTime (flaky watcher) [''a''] = (2000000000, [''a''])"
proof -
  have 2: "iterations [TimerFired] (flaky stubborn) [''SetUp''] =
      Some (flaky stubborn, [''SetUp'', ''a'', ''b'', ''Fail''],
        [After 1, UpdateCall (logging ''a''), UpdateCall (failing ''b'' ''boom''), FailCall ''boom''])"
    by (simp add: sample_defs engine_defs)
  have 3: "\<not> stop (flaky stubborn)" by (simp add: flaky_def)
  have bt: "blockTime (flaky stubborn) [''SetUp'', ''a'', ''b'', ''Fail''] =
      (4, [''SetUp'', ''a'', ''b'', ''Fail''])"
    by (simp add: blockTime_def sample_defs)
  from interval_each_iteration [OF 2 3, of "[StopSig]"]
  have first: "\<exists>evs2. snd (snd (snd (run_loop ([TimerFired] @ [StopSig]) (flaky stubborn) [''SetUp'']))) =
      [After 1, UpdateCall (logging ''a''), UpdateCall (failing ''b'' ''boom''), FailCall ''boom''] @
      After 4 # evs2"
    unfolding bt by simp
  have i2: "iterations [] (flaky watcher) [''a''] = Some (flaky watcher, [''a''], [])" by simp
  have i3: "\<not> stop (flaky watcher)" by (simp add: flaky_def)
  have "BlockTimer (bot (flaky watcher)) = None" by (simp add: sample_defs)
  with interval_each_iteration [OF i2 i3, of "[]"]
  have "blockTime (flaky watcher) [''a''] = (defaultBlockTime, [''a'']) \<and>
      30 * defaultBlockTime = Minute"
    by blast
  then have second: "blockTime (flaky watcher) [''a''] = (2000000000, [''a''])"
    by (simp add: Minute_def)
  from first second show ?thesis by simp
qed

end
